theory Spec2Isabelle
  imports Main "HOL-Library.Word" "HOL-Library.Signed_Division"
begin

section \<open>Machine types\<close>

text \<open>
  The plugin is C++: \<^verbatim>\<open>int\<close> is a 32-bit two's-complement integer,
  \<^verbatim>\<open>int64_t\<close> a 64-bit one and \<^verbatim>\<open>uint8_t\<close> a byte. Arithmetic on
  words wraps; \<open>sint\<close> reads the signed value and \<open><=s\<close>, \<open><s\<close> compare signed.
\<close>

type_synonym cint = "32 word"
type_synonym int64_t = "64 word"
type_synonym uint8_t = "8 word"
type_synonym MoqClientHandle = cint

section \<open>DecodedFrame\<close>

text \<open>
  \<^verbatim>\<open>struct DecodedFrame { int width = 0; int height = 0;
     std::vector<uint8_t> data; int64_t timestamp = 0; };\<close>
\<close>

record DecodedFrame =
  width :: cint
  height :: cint
  data :: "uint8_t list"
  timestamp :: int64_t

definition emptyFrame :: DecodedFrame where
  "emptyFrame = \<lparr>width = 0, height = 0, data = [], timestamp = 0\<rparr>"

section \<open>MoqClientImpl\<close>

text \<open>
  The control point of the worker thread inside \<^verbatim>\<open>workerFunction\<close>: before the
  first locked block (line 95), in the 500 ms connection delay (line 101), at the head
  of the \<^verbatim>\<open>while (true)\<close> loop (line 110), and after the \<^verbatim>\<open>break\<close>.
\<close>

datatype worker_pc = Enter | ConnectDelay | FrameLoop | Exited

text \<open>
  The member variables of the class, without the thread, mutex and condition variable
  objects. The two last fields are the state of the worker thread that the constructor
  starts: its control point and its local variable \<^verbatim>\<open>frameCount\<close>. Every block of
  the source that runs under \<^verbatim>\<open>mutex_\<close> is one atomic step of the model.
\<close>

record MoqClientImpl =
  serverUrl :: string
  streamPath :: string
  targetLatencyMs :: cint
  running :: bool
  connectionStatus :: cint
  frameQueue :: "DecodedFrame list"
  currentFrame :: DecodedFrame
  hasNewFrame :: bool
  workerPc :: worker_pc
  frameCount :: cint

text \<open>The constructor (lines 26-32): status 0, running, the worker thread started.\<close>

definition newClient :: "string \<Rightarrow> string \<Rightarrow> cint \<Rightarrow> MoqClientImpl" where
  "newClient url path latency =
     \<lparr>serverUrl = url, streamPath = path, targetLatencyMs = latency,
      running = True, connectionStatus = 0, frameQueue = [],
      currentFrame = emptyFrame, hasNewFrame = False,
      workerPc = Enter, frameCount = 0\<rparr>"

text \<open>The locked block of the destructor (lines 36-39).\<close>

definition stopClient :: "MoqClientImpl \<Rightarrow> MoqClientImpl" where
  "stopClient s = s\<lparr>running := False\<rparr>"

subsection \<open>The foreground operations\<close>

text \<open>\<^verbatim>\<open>update\<close> (lines 47-59): the front of the queue, if any, becomes the current frame.\<close>

definition update :: "MoqClientImpl \<Rightarrow> bool \<times> MoqClientImpl" where
  "update s =
     (let s' = (case frameQueue s of
                  [] \<Rightarrow> s
                | f # q \<Rightarrow> s\<lparr>currentFrame := f, frameQueue := q, hasNewFrame := True\<rparr>)
      in (0 <=s connectionStatus s', s'))"

text \<open>
  \<^verbatim>\<open>getFrameInfo\<close> (lines 61-69). The two reference parameters are passed in with the
  caller's values and returned, written or not.
\<close>

definition getFrameInfo :: "MoqClientImpl \<Rightarrow> cint \<Rightarrow> cint \<Rightarrow> bool \<times> cint \<times> cint" where
  "getFrameInfo s w h =
     (if hasNewFrame s then (True, width (currentFrame s), height (currentFrame s))
      else (False, w, h))"

text \<open>\<^verbatim>\<open>memcpy(dst, src, n)\<close> on byte lists: the first \<open>n\<close> bytes of \<open>dst\<close> are replaced.\<close>

definition memcpy :: "uint8_t list \<Rightarrow> uint8_t list \<Rightarrow> nat \<Rightarrow> uint8_t list" where
  "memcpy dst src n = take n src @ drop n dst"

text \<open>
  \<^verbatim>\<open>getFrameData\<close> (lines 71-82). \<open>buffer\<close> is the caller's memory, \<open>bufferSize\<close> what
  the caller says its size is. \<^verbatim>\<open>dataSize\<close> is the vector's size converted to
  \<^verbatim>\<open>int\<close>; the current frame of a reachable session has 0 or 1228800 bytes
  (\<open>framesInv\<close> below), so the conversion keeps the size and \<^verbatim>\<open>memcpy\<close> gets a
  count that is not negative. The result is the return value, the caller's memory and
  the session.
\<close>

definition getFrameData ::
  "MoqClientImpl \<Rightarrow> uint8_t list \<Rightarrow> cint \<Rightarrow> bool \<times> uint8_t list \<times> MoqClientImpl" where
  "getFrameData s buffer bufferSize =
     (if hasNewFrame s \<and> data (currentFrame s) \<noteq> [] then
        (let dataSize = (of_nat (length (data (currentFrame s))) :: cint) in
         if dataSize <=s bufferSize then
           (True, memcpy buffer (data (currentFrame s)) (nat (sint dataSize)),
            s\<lparr>hasNewFrame := False\<rparr>)
         else (False, buffer, s))
      else (False, buffer, s))"

definition getConnectionStatus :: "MoqClientImpl \<Rightarrow> cint" where
  "getConnectionStatus s = connectionStatus s"

subsection \<open>The worker\<close>

text \<open>
  The body of the inner loop (lines 127-137): one RGBA pixel stored at
  \<^verbatim>\<open>idx = (y * frame.width + x) * 4\<close>. The sums and products are \<^verbatim>\<open>int\<close>
  arithmetic, \<^verbatim>\<open>%\<close> truncates towards zero (\<open>smod\<close>), and the conversion to
  \<^verbatim>\<open>uint8_t\<close> keeps the low byte.
\<close>

definition channel :: "cint \<Rightarrow> uint8_t" where
  "channel v = word_of_int (sint v smod 255)"

definition putPixel :: "cint \<Rightarrow> cint \<Rightarrow> cint \<Rightarrow> DecodedFrame \<Rightarrow> DecodedFrame" where
  "putPixel fc y x frame =
     (let idx = nat (sint ((y * width frame + x) * 4));
          r = channel (x + fc);
          g = channel (y + fc * 2);
          b = channel (x + y + fc * 3)
      in frame\<lparr>data := (data frame)[idx := r, idx + 1 := g, idx + 2 := b, idx + 3 := 255]\<rparr>)"

text \<open>
  Lines 116-139: the test frame for the value \<open>fc\<close> of \<^verbatim>\<open>frameCount\<close>. The product
  \<^verbatim>\<open>frameCount * 16667\<close> is computed in \<^verbatim>\<open>int\<close> and then widened to the
  64-bit timestamp. \<^verbatim>\<open>resize\<close> on the empty vector gives zero bytes.
\<close>

definition generateFrame :: "cint \<Rightarrow> DecodedFrame" where
  "generateFrame fc =
     (let frame0 = emptyFrame\<lparr>width := 640, height := 480, timestamp := scast (fc * 16667)\<rparr>;
          frame1 = frame0\<lparr>data := replicate (nat (sint (width frame0 * height frame0 * 4))) 0\<rparr>
      in fold (\<lambda>y. fold (\<lambda>x. putPixel fc (of_nat y) (of_nat x))
                       [0 ..< nat (sint (width frame1))])
              [0 ..< nat (sint (height frame1))] frame1)"

text \<open>Lines 141-144: the push, only below five queued frames.\<close>

definition pushFrame :: "DecodedFrame \<Rightarrow> MoqClientImpl \<Rightarrow> MoqClientImpl" where
  "pushFrame frame s =
     (if length (frameQueue s) < 5 then s\<lparr>frameQueue := frameQueue s @ [frame]\<rparr> else s)"

text \<open>
  One step of \<^verbatim>\<open>workerFunction\<close> (lines 90-152): the first locked block, the second
  one (with the declaration of \<^verbatim>\<open>frameCount\<close>), or one turn of the loop with the
  increment that follows it.
\<close>

definition workerStep :: "MoqClientImpl \<Rightarrow> MoqClientImpl" where
  "workerStep s =
     (case workerPc s of
        Enter \<Rightarrow> s\<lparr>connectionStatus := 1, workerPc := ConnectDelay\<rparr>
      | ConnectDelay \<Rightarrow> s\<lparr>connectionStatus := 2, frameCount := 0, workerPc := FrameLoop\<rparr>
      | FrameLoop \<Rightarrow>
          if \<not> running s then s\<lparr>workerPc := Exited\<rparr>
          else (pushFrame (generateFrame (frameCount s)) s)\<lparr>frameCount := frameCount s + 1\<rparr>
      | Exited \<Rightarrow> s)"

subsection \<open>Interleavings\<close>

text \<open>
  What can happen to one session, in any order: a step of its worker, the destructor's
  request to stop, and the four foreground calls (whose results are dropped here).
\<close>

datatype event =
    Worker
  | Stop
  | Update
  | GetFrameInfo
  | GetFrameData "uint8_t list" cint
  | GetConnectionStatus

fun step :: "event \<Rightarrow> MoqClientImpl \<Rightarrow> MoqClientImpl" where
  "step Worker s = workerStep s"
| "step Stop s = stopClient s"
| "step Update s = snd (update s)"
| "step GetFrameInfo s = s"
| "step (GetFrameData buffer bufferSize) s = snd (snd (getFrameData s buffer bufferSize))"
| "step GetConnectionStatus s = s"

definition run :: "event list \<Rightarrow> MoqClientImpl \<Rightarrow> MoqClientImpl" where
  "run evs s = fold step evs s"

section \<open>The registry and the exported functions\<close>

record registry =
  g_clients :: "MoqClientHandle \<rightharpoonup> MoqClientImpl"
  g_nextClientId :: cint

definition initialRegistry :: registry where
  "initialRegistry = \<lparr>g_clients = Map.empty, g_nextClientId = 1\<rparr>"

definition MoqCreateClient ::
  "registry \<Rightarrow> string \<Rightarrow> string \<Rightarrow> cint \<Rightarrow> MoqClientHandle \<times> registry" where
  "MoqCreateClient reg url path latency =
     (let handle = g_nextClientId reg
      in (handle, reg\<lparr>g_nextClientId := handle + 1,
                       g_clients := (g_clients reg)(handle \<mapsto> newClient url path latency)\<rparr>))"

text \<open>
  Erasing the entry runs the destructor, which stops and joins the worker; the session
  is gone from the registry afterwards.
\<close>

definition MoqDestroyClient :: "registry \<Rightarrow> MoqClientHandle \<Rightarrow> registry" where
  "MoqDestroyClient reg client =
     (case g_clients reg client of
        Some c \<Rightarrow> reg\<lparr>g_clients := (g_clients reg)(client := None)\<rparr>
      | None \<Rightarrow> reg)"

definition MoqUpdateClient :: "registry \<Rightarrow> MoqClientHandle \<Rightarrow> bool \<times> registry" where
  "MoqUpdateClient reg client =
     (case g_clients reg client of
        Some c \<Rightarrow> (fst (update c), reg\<lparr>g_clients := (g_clients reg)(client \<mapsto> snd (update c))\<rparr>)
      | None \<Rightarrow> (False, reg))"

definition MoqGetFrameInfo ::
  "registry \<Rightarrow> MoqClientHandle \<Rightarrow> cint \<Rightarrow> cint \<Rightarrow> (bool \<times> cint \<times> cint) \<times> registry" where
  "MoqGetFrameInfo reg client w h =
     (case g_clients reg client of
        Some c \<Rightarrow> (getFrameInfo c w h, reg)
      | None \<Rightarrow> ((False, w, h), reg))"

definition MoqGetFrameData ::
  "registry \<Rightarrow> MoqClientHandle \<Rightarrow> uint8_t list \<Rightarrow> cint \<Rightarrow> (bool \<times> uint8_t list) \<times> registry" where
  "MoqGetFrameData reg client buffer bufferSize =
     (case g_clients reg client of
        Some c \<Rightarrow>
          (case getFrameData c buffer bufferSize of
             (r, buffer', c') \<Rightarrow> ((r, buffer'), reg\<lparr>g_clients := (g_clients reg)(client \<mapsto> c')\<rparr>))
      | None \<Rightarrow> ((False, buffer), reg))"

definition MoqGetConnectionStatus :: "registry \<Rightarrow> MoqClientHandle \<Rightarrow> cint \<times> registry" where
  "MoqGetConnectionStatus reg client =
     (case g_clients reg client of
        Some c \<Rightarrow> (getConnectionStatus c, reg)
      | None \<Rightarrow> (- 1, reg))"

section \<open>Lock scopes\<close>

text \<open>
  The two mutexes: the global \<^verbatim>\<open>g_clientsMutex\<close> of the registry and the member
  \<^verbatim>\<open>mutex_\<close> of a client. Both are only ever taken through
  \<^verbatim>\<open>std::lock_guard\<close>, which holds the mutex from its declaration to the end of the
  enclosing block. A function body is therefore a list of statements: the declaration
  of a guard, a nested block (also the body of a callee, or one turn of a loop), or an
  operation.
\<close>

datatype lock = G_clientsMutex | Mutex

datatype operation =
    SetConnectionStatus cint
  | SleepMs nat
  | InitFrameCount
  | TestRunning
  | GenerateTestFrame
  | PushToQueue
  | IncrementFrameCount
  | FindClient
  | TestHasNewFrame
  | CopyPixels
  | ClearHasNewFrame

datatype stmt = LockGuard lock | Do operation | Block "stmt list"

text \<open>Every operation of a body in program order, with the locks held while it runs.\<close>

fun locksHeld :: "lock list \<Rightarrow> stmt list \<Rightarrow> (operation \<times> lock list) list" where
  "locksHeld held [] = []"
| "locksHeld held (LockGuard l # rest) = locksHeld (l # held) rest"
| "locksHeld held (Do a # rest) = (a, held) # locksHeld held rest"
| "locksHeld held (Block body # rest) = locksHeld held body @ locksHeld held rest"

text \<open>The locks held while the operation \<open>a\<close> of a body runs (at each of its occurrences).\<close>

definition locksDuring :: "operation \<Rightarrow> stmt list \<Rightarrow> lock list" where
  "locksDuring a body = concat (map snd (filter (\<lambda>p. fst p = a) (locksHeld [] body)))"

text \<open>
  \<^verbatim>\<open>workerFunction\<close>, lines 90-152: the two status blocks around the 500 ms sleep,
  then one turn of the loop, whose inner block (lines 111-145) declares the guard first
  and contains the test of \<^verbatim>\<open>running_\<close>, the generation of the frame and the push.
\<close>

definition workerFunction_body :: "stmt list" where
  "workerFunction_body =
     [Block [LockGuard Mutex, Do (SetConnectionStatus 1)],
      Do (SleepMs 500),
      Block [LockGuard Mutex, Do (SetConnectionStatus 2)],
      Do InitFrameCount,
      Block [Block [LockGuard Mutex, Do TestRunning, Do GenerateTestFrame, Do PushToQueue],
             Do IncrementFrameCount,
             Do (SleepMs 16)]]"

text \<open>\<^verbatim>\<open>MoqClientImpl::getFrameData\<close>, lines 71-82.\<close>

definition getFrameData_body :: "stmt list" where
  "getFrameData_body =
     [LockGuard Mutex, Do TestHasNewFrame, Do CopyPixels, Do ClearHasNewFrame]"

text \<open>\<^verbatim>\<open>MoqGetFrameData\<close>, lines 214-223: the guard, the lookup, the call.\<close>

definition MoqGetFrameData_body :: "stmt list" where
  "MoqGetFrameData_body =
     [LockGuard G_clientsMutex, Do FindClient, Block getFrameData_body]"

section \<open>Invariants of a session\<close>

text \<open>
  What the worker stores for every frame it generates, and what therefore holds of every
  queued frame and of the current frame once one has been drained.
\<close>

definition frameOk :: "DecodedFrame \<Rightarrow> bool" where
  "frameOk f \<longleftrightarrow> width f = 640 \<and> height f = 480 \<and> length (data f) = 1228800"

definition framesInv :: "MoqClientImpl \<Rightarrow> bool" where
  "framesInv s \<longleftrightarrow>
     list_all frameOk (frameQueue s)
     \<and> (currentFrame s = emptyFrame \<and> \<not> hasNewFrame s \<or> frameOk (currentFrame s))"

text \<open>The status follows the control point of the worker.\<close>

definition statusInv :: "MoqClientImpl \<Rightarrow> bool" where
  "statusInv s \<longleftrightarrow>
     connectionStatus s =
       (case workerPc s of Enter \<Rightarrow> 0 | ConnectDelay \<Rightarrow> 1 | FrameLoop \<Rightarrow> 2 | Exited \<Rightarrow> 2)"

section \<open>Properties of the generated frame\<close>

lemma putPixel_fields:
  "width (putPixel fc y x frame) = width frame"
  "height (putPixel fc y x frame) = height frame"
  "timestamp (putPixel fc y x frame) = timestamp frame"
  "length (data (putPixel fc y x frame)) = length (data frame)"
  by (simp_all add: putPixel_def Let_def)

lemma fold_putPixel_fields:
  "width (fold (\<lambda>x. putPixel fc y (g x)) xs frame) = width frame"
  "height (fold (\<lambda>x. putPixel fc y (g x)) xs frame) = height frame"
  "timestamp (fold (\<lambda>x. putPixel fc y (g x)) xs frame) = timestamp frame"
  "length (data (fold (\<lambda>x. putPixel fc y (g x)) xs frame)) = length (data frame)"
  by (induction xs arbitrary: frame) (simp_all add: putPixel_fields)

lemma fold_rows_fields:
  "width (fold (\<lambda>y. fold (\<lambda>x. putPixel fc (h y) (g x)) xs) ys frame) = width frame"
  "height (fold (\<lambda>y. fold (\<lambda>x. putPixel fc (h y) (g x)) xs) ys frame) = height frame"
  "timestamp (fold (\<lambda>y. fold (\<lambda>x. putPixel fc (h y) (g x)) xs) ys frame) = timestamp frame"
  "length (data (fold (\<lambda>y. fold (\<lambda>x. putPixel fc (h y) (g x)) xs) ys frame)) = length (data frame)"
  by (induction ys arbitrary: frame) (simp_all add: fold_putPixel_fields)

lemma generateFrame_width: "width (generateFrame fc) = 640"
  by (simp add: generateFrame_def Let_def fold_rows_fields emptyFrame_def)

lemma generateFrame_height: "height (generateFrame fc) = 480"
  by (simp add: generateFrame_def Let_def fold_rows_fields emptyFrame_def)

lemma generateFrame_timestamp: "timestamp (generateFrame fc) = scast (fc * 16667)"
  by (simp add: generateFrame_def Let_def fold_rows_fields emptyFrame_def)

lemma generateFrame_length: "length (data (generateFrame fc)) = 1228800"
  by (simp add: generateFrame_def Let_def fold_rows_fields emptyFrame_def)

text \<open>
  The four stores of \<^verbatim>\<open>putPixel\<close> are inside the vector for every pixel of the
  640 by 480 frame, so the list updates of the model are the stores of the source.
\<close>

lemma sint_of_nat_small:
  assumes "n < 2 ^ 31"
  shows "sint (of_nat n :: cint) = int n"
proof -
  have "int n < 2 ^ 31" using assms by (simp flip: of_nat_less_iff)
  then show ?thesis
    by (simp add: signed_of_nat signed_take_bit_int_eq_self)
qed

lemma putPixel_in_range:
  assumes "x < 640" and "y < 480"
  shows "nat (sint ((of_nat y * 640 + of_nat x) * 4 :: cint)) + 3 < 1228800"
proof -
  have eq: "(of_nat y * 640 + of_nat x) * 4 = (of_nat ((y * 640 + x) * 4) :: cint)"
    by simp
  have small: "(y * 640 + x) * 4 < 2 ^ 31" using assms by simp
  have "sint ((of_nat y * 640 + of_nat x) * 4 :: cint) = int ((y * 640 + x) * 4)"
    unfolding eq using small by (rule sint_of_nat_small)
  then show ?thesis
    using assms by simp
qed

section \<open>Runs\<close>

lemma run_Nil: "run [] s = s"
  by (simp add: run_def)

lemma run_Cons: "run (e # evs) s = run evs (step e s)"
  by (simp add: run_def)

lemma run_append: "run (evs1 @ evs2) s = run evs2 (run evs1 s)"
  by (simp add: run_def)

lemma run_invariant:
  assumes "P s" and "\<And>e s. P s \<Longrightarrow> P (step e s)"
  shows "P (run evs s)"
  using assms(1)
proof (induction evs arbitrary: s)
  case Nil
  then show ?case by (simp add: run_Nil)
next
  case (Cons e evs)
  then show ?case by (simp add: run_Cons assms(2))
qed

section \<open>Unknown handles\<close>

lemma MoqDestroyClient_absent: "g_clients (MoqDestroyClient reg client) client = None"
  by (cases "g_clients reg client") (simp_all add: MoqDestroyClient_def)

text \<open>
  C1. For a handle that is not in the registry, in particular one that was just
  destroyed, \<^verbatim>\<open>MoqUpdateClient\<close>, \<^verbatim>\<open>MoqGetFrameInfo\<close> and
  \<^verbatim>\<open>MoqGetFrameData\<close> return false, \<^verbatim>\<open>MoqGetConnectionStatus\<close> returns a
  negative value, and none of them changes the registry, any session in it, the caller's
  two dimension variables or the caller's buffer.
\<close>

theorem unknown_handle_operations:
  assumes "g_clients reg client = None \<or> (\<exists>reg0. reg = MoqDestroyClient reg0 client)"
  shows "MoqUpdateClient reg client = (False, reg)
       \<and> MoqGetFrameInfo reg client w h = ((False, w, h), reg)
       \<and> MoqGetFrameData reg client buffer bufferSize = ((False, buffer), reg)
       \<and> fst (MoqGetConnectionStatus reg client) <s 0
       \<and> snd (MoqGetConnectionStatus reg client) = reg
       \<and> MoqDestroyClient reg client = reg"
proof -
  have absent: "g_clients reg client = None"
    using assms by (auto simp: MoqDestroyClient_absent)
  show ?thesis
    by (simp add: absent MoqUpdateClient_def MoqGetFrameInfo_def MoqGetFrameData_def
        MoqGetConnectionStatus_def MoqDestroyClient_def word_sless_alt)
qed

theorem unknown_handle_operations_witness:
  "(let reg = snd (MoqCreateClient initialRegistry ''host'' ''path'' 100);
        gone = MoqDestroyClient reg 1
    in g_clients reg 0 = None
     \<and> g_clients reg 1 \<noteq> None
     \<and> MoqUpdateClient reg 0 = (False, reg)
     \<and> MoqGetFrameInfo reg 0 7 9 = ((False, 7, 9), reg)
     \<and> MoqGetFrameData reg 0 [1, 2, 3] 3 = ((False, [1, 2, 3]), reg)
     \<and> fst (MoqGetConnectionStatus reg 0) = - 1
     \<and> MoqUpdateClient gone 1 = (False, gone)
     \<and> MoqGetFrameInfo gone 1 7 9 = ((False, 7, 9), gone)
     \<and> MoqGetFrameData gone 1 [1, 2, 3] 3 = ((False, [1, 2, 3]), gone)
     \<and> fst (MoqGetConnectionStatus gone 1) <s 0)"
proof -
  let ?reg = "snd (MoqCreateClient initialRegistry ''host'' ''path'' 100)"
  have a: "g_clients ?reg 0 = None" and b: "g_clients ?reg 1 \<noteq> None"
    by (simp_all add: MoqCreateClient_def initialRegistry_def Let_def)
  have c: "fst (MoqGetConnectionStatus ?reg 0) = - 1"
    by (simp add: MoqGetConnectionStatus_def a)
  show ?thesis
    using unknown_handle_operations [of ?reg 0 7 9 "[1, 2, 3]" 3]
      unknown_handle_operations [of "MoqDestroyClient ?reg 1" 1 7 9 "[1, 2, 3]" 3]
      a b c
    by (auto simp: Let_def)
qed

section \<open>update\<close>

text \<open>
  C7. For a registered handle, \<^verbatim>\<open>MoqUpdateClient\<close> returns true exactly when the
  session's connection status is not negative. Its effect on the session: with an empty
  queue none; otherwise the front (oldest) frame of the queue, and only that one, is
  removed from the queue and becomes the current frame, and the unread flag is set.
  Other sessions and the handle counter are untouched.
\<close>

theorem update_registered:
  assumes "g_clients reg client = Some c"
  shows "fst (MoqUpdateClient reg client) = (0 \<le> sint (connectionStatus c))
       \<and> (\<exists>c'. g_clients (snd (MoqUpdateClient reg client)) client = Some c'
            \<and> (if frameQueue c = [] then c' = c
                else frameQueue c = currentFrame c' # frameQueue c' \<and> hasNewFrame c'
                   \<and> c' = c\<lparr>currentFrame := hd (frameQueue c), frameQueue := tl (frameQueue c),
                            hasNewFrame := True\<rparr>))
       \<and> (\<forall>other. other \<noteq> client \<longrightarrow>
             g_clients (snd (MoqUpdateClient reg client)) other = g_clients reg other)
       \<and> g_nextClientId (snd (MoqUpdateClient reg client)) = g_nextClientId reg"
  using assms
  by (cases "frameQueue c") (simp_all add: MoqUpdateClient_def update_def word_sle_eq)

lemma warm_client:
  "run [Worker, Worker, Worker] (newClient url path latency) =
     (newClient url path latency)\<lparr>connectionStatus := 2, workerPc := FrameLoop,
        frameQueue := [generateFrame 0], frameCount := 1\<rparr>"
  by (simp add: run_def workerStep_def newClient_def pushFrame_def)

theorem update_registered_witness:
  "(let c = run [Worker, Worker, Worker] (newClient ''host'' ''path'' 100);
        reg = \<lparr>g_clients = [1 \<mapsto> c], g_nextClientId = 2\<rparr>
    in g_clients reg 1 = Some c
     \<and> fst (MoqUpdateClient reg 1)
     \<and> (\<exists>c'. g_clients (snd (MoqUpdateClient reg 1)) 1 = Some c'
           \<and> currentFrame c' = generateFrame 0 \<and> frameQueue c' = [] \<and> hasNewFrame c'))"
proof -
  let ?c = "run [Worker, Worker, Worker] (newClient ''host'' ''path'' 100)"
  let ?reg = "\<lparr>g_clients = [1 \<mapsto> ?c], g_nextClientId = 2\<rparr>"
  have present: "g_clients ?reg 1 = Some ?c" by simp
  have q: "frameQueue ?c = [generateFrame 0]" and st: "connectionStatus ?c = 2"
    by (simp_all add: warm_client)
  show ?thesis
    using update_registered [OF present] q st by (auto simp: Let_def)
qed

lemma generateFrame_nonempty: "data (generateFrame fc) \<noteq> []"
  using generateFrame_length [of fc] by auto

lemma update_empty: "frameQueue s = [] \<Longrightarrow> snd (update s) = s"
  by (simp add: update_def)

text \<open>
  C10. With an empty queue, \<^verbatim>\<open>update\<close> changes nothing in the session, however
  often it is called: the current frame and the unread flag stay as they are, so
  \<^verbatim>\<open>getFrameInfo\<close> and \<^verbatim>\<open>getFrameData\<close> answer after the calls what they would have
  answered before, and \<^verbatim>\<open>getFrameInfo\<close> still reports an unread frame.
\<close>

theorem update_empty_queue:
  assumes "frameQueue s = []"
  shows "snd (update s) = s
       \<and> run (replicate n Update) s = s
       \<and> getFrameInfo (run (replicate n Update) s) w h = getFrameInfo s w h
       \<and> getFrameData (run (replicate n Update) s) buffer bufferSize
           = getFrameData s buffer bufferSize
       \<and> (hasNewFrame s \<longrightarrow>
            getFrameInfo (run (replicate n Update) s) w h
              = (True, width (currentFrame s), height (currentFrame s)))"
proof -
  have r: "run (replicate n Update) s = s"
    by (induction n) (simp_all add: run_Nil run_Cons update_empty assms)
  show ?thesis
    by (simp add: r update_empty assms getFrameInfo_def)
qed

theorem update_empty_queue_witness:
  "(let s = snd (update (run [Worker, Worker, Worker] (newClient ''host'' ''path'' 100)))
    in frameQueue s = [] \<and> hasNewFrame s
     \<and> run (replicate 3 Update) s = s
     \<and> getFrameInfo (run (replicate 3 Update) s) 0 0 = (True, 640, 480))"
proof -
  let ?s = "snd (update (run [Worker, Worker, Worker] (newClient ''host'' ''path'' 100)))"
  have q: "frameQueue ?s = []" and n: "hasNewFrame ?s"
    and c: "currentFrame ?s = generateFrame 0"
    by (simp_all add: warm_client update_def)
  show ?thesis
    using update_empty_queue [OF q, of 3 0 0] q n c
    by (simp add: Let_def getFrameInfo_def generateFrame_width generateFrame_height)
qed

section \<open>getFrameData\<close>

lemma step_keeps_read:
  "e \<noteq> Update \<Longrightarrow> \<not> hasNewFrame s \<Longrightarrow> \<not> hasNewFrame (step e s)"
  by (cases e)
     (simp_all add: workerStep_def pushFrame_def stopClient_def getFrameData_def
        split: worker_pc.splits)

lemma run_keeps_read:
  "Update \<notin> set evs \<Longrightarrow> \<not> hasNewFrame s \<Longrightarrow> \<not> hasNewFrame (run evs s)"
proof (induction evs arbitrary: s)
  case Nil
  then show ?case by (simp add: run_Nil)
next
  case (Cons e evs)
  from Cons.prems have "e \<noteq> Update" and "Update \<notin> set evs" by auto
  with Cons show ?case by (simp add: run_Cons step_keeps_read)
qed

text \<open>
  C4. After a successful \<^verbatim>\<open>getFrameData\<close> the unread flag is cleared, and as long
  as no \<^verbatim>\<open>update\<close> intervenes (the worker and the other calls may run) every further
  \<^verbatim>\<open>getFrameData\<close> returns false and leaves the caller's buffer and the session alone.
\<close>

theorem getFrameData_consumes_once:
  assumes "getFrameData s buffer bufferSize = (True, buffer', s')"
    and "Update \<notin> set evs"
  shows "\<not> hasNewFrame s'
       \<and> getFrameData (run evs s') buffer2 bufferSize2 = (False, buffer2, run evs s')"
proof -
  have "\<not> hasNewFrame s'"
    using assms(1) by (auto simp: getFrameData_def Let_def split: if_splits)
  then have "\<not> hasNewFrame (run evs s')"
    using assms(2) by (rule run_keeps_read [rotated])
  then show ?thesis
    using \<open>\<not> hasNewFrame s'\<close> by (simp add: getFrameData_def)
qed

theorem getFrameData_consumes_once_witness:
  "(let s = snd (update (run [Worker, Worker, Worker] (newClient ''host'' ''path'' 100)));
        first = getFrameData s [] 1228800;
        s' = snd (snd first)
    in fst first \<and> Update \<notin> set [Worker, GetFrameInfo]
     \<and> fst (getFrameData (run [Worker, GetFrameInfo] s') [] 1228800) = False)"
proof -
  let ?s = "snd (update (run [Worker, Worker, Worker] (newClient ''host'' ''path'' 100)))"
  have n: "hasNewFrame ?s" and c: "currentFrame ?s = generateFrame 0"
    by (simp_all add: warm_client update_def)
  have first: "getFrameData ?s [] 1228800
      = (True, memcpy [] (data (generateFrame 0)) 1228800, ?s\<lparr>hasNewFrame := False\<rparr>)"
    using n c
    by (simp add: getFrameData_def generateFrame_length generateFrame_nonempty word_sle_eq
        Let_def)
  show ?thesis
    using getFrameData_consumes_once [OF first, of "[Worker, GetFrameInfo]" "[]" 1228800]
    by (simp add: Let_def first)
qed

section \<open>Frames in the queue and in the current-frame slot\<close>

lemma frameOk_generateFrame: "frameOk (generateFrame fc)"
  by (simp add: frameOk_def generateFrame_width generateFrame_height generateFrame_length)

lemma framesInv_newClient: "framesInv (newClient url path latency)"
  by (simp add: framesInv_def newClient_def)

lemma framesInv_workerStep: "framesInv s \<Longrightarrow> framesInv (workerStep s)"
  by (auto simp: framesInv_def workerStep_def pushFrame_def frameOk_generateFrame
      split: worker_pc.splits)

lemma framesInv_update: "framesInv s \<Longrightarrow> framesInv (snd (update s))"
  by (cases "frameQueue s") (auto simp: framesInv_def update_def)

lemma framesInv_getFrameData:
  "framesInv s \<Longrightarrow> framesInv (snd (snd (getFrameData s buffer bufferSize)))"
  by (auto simp: framesInv_def getFrameData_def Let_def)

lemma framesInv_step: "framesInv s \<Longrightarrow> framesInv (step e s)"
proof (cases e)
  case Stop
  assume "framesInv s"
  then show ?thesis by (simp add: Stop stopClient_def framesInv_def)
qed (simp_all add: framesInv_workerStep framesInv_update framesInv_getFrameData)

lemma framesInv_run: "framesInv s \<Longrightarrow> framesInv (run evs s)"
  by (rule run_invariant) (simp_all add: framesInv_step)

lemma framesInv_reachable: "framesInv (run evs (newClient url path latency))"
  by (simp add: framesInv_run framesInv_newClient)

lemma frameOk_size:
  "frameOk f \<Longrightarrow> int (length (data f)) = sint (width f) * sint (height f) * 4"
  by (simp add: frameOk_def)

lemma getFrameData_enough:
  assumes "hasNewFrame s" and "frameOk (currentFrame s)"
    and "1228800 \<le> sint bufferSize"
  shows "getFrameData s buffer bufferSize
     = (True, data (currentFrame s) @ drop 1228800 buffer, s\<lparr>hasNewFrame := False\<rparr>)"
proof -
  have len: "length (data (currentFrame s)) = 1228800"
    using assms(2) by (simp add: frameOk_def)
  then have ne: "data (currentFrame s) \<noteq> []" by auto
  show ?thesis
    using assms(1,3) ne by (simp add: getFrameData_def len word_sle_eq memcpy_def)
qed

lemma getFrameData_short:
  assumes "hasNewFrame s" and "frameOk (currentFrame s)"
    and "sint bufferSize < 1228800"
  shows "getFrameData s buffer bufferSize = (False, buffer, s)"
proof -
  have len: "length (data (currentFrame s)) = 1228800"
    using assms(2) by (simp add: frameOk_def)
  show ?thesis
    using assms(1,3) by (simp add: getFrameData_def len word_sle_eq)
qed

text \<open>
  C3. In every state a session can reach, if it holds an unread frame and
  \<^verbatim>\<open>bufferSize\<close> is less than the number of bytes of that frame, then
  \<^verbatim>\<open>getFrameData\<close> returns false, the caller's buffer is returned as it was, and the
  session (the flag and the frame included) is unchanged; a call that follows at once with
  a \<^verbatim>\<open>bufferSize\<close> of at least that number returns true, has copied exactly the
  bytes of that frame to the front of its buffer and cleared the flag.
\<close>

theorem getFrameData_small_buffer:
  assumes "s = run evs (newClient url path latency)"
    and "hasNewFrame s"
    and "sint bufferSize < int (length (data (currentFrame s)))"
  shows "getFrameData s buffer bufferSize = (False, buffer, s)
       \<and> (\<forall>buffer2 bufferSize2.
            int (length (data (currentFrame s))) \<le> sint bufferSize2 \<longrightarrow>
            getFrameData (snd (snd (getFrameData s buffer bufferSize))) buffer2 bufferSize2
              = (True,
                 data (currentFrame s) @ drop (length (data (currentFrame s))) buffer2,
                 s\<lparr>hasNewFrame := False\<rparr>))"
proof -
  have "framesInv s" using assms(1) by (simp add: framesInv_reachable)
  then have ok: "frameOk (currentFrame s)"
    using assms(2) by (auto simp: framesInv_def)
  then have len: "length (data (currentFrame s)) = 1228800"
    by (simp add: frameOk_def)
  have short: "getFrameData s buffer bufferSize = (False, buffer, s)"
    using assms(2,3) ok by (simp add: getFrameData_short len)
  show ?thesis
    using assms(2) ok by (simp add: short len getFrameData_enough)
qed

lemma drained_client:
  "run [Worker, Worker, Worker, Update] (newClient url path latency) =
     (newClient url path latency)\<lparr>connectionStatus := 2, workerPc := FrameLoop,
        frameQueue := [], frameCount := 1, currentFrame := generateFrame 0,
        hasNewFrame := True\<rparr>"
  by (simp add: run_def workerStep_def newClient_def pushFrame_def update_def)

theorem getFrameData_small_buffer_witness:
  "(let s = run [Worker, Worker, Worker, Update] (newClient ''host'' ''path'' 100)
    in hasNewFrame s
     \<and> sint (1228799 :: cint) < int (length (data (currentFrame s)))
     \<and> getFrameData s [7, 7] 1228799 = (False, [7, 7], s)
     \<and> fst (getFrameData (snd (snd (getFrameData s [7, 7] 1228799))) [] 1228800))"
proof -
  let ?s = "run [Worker, Worker, Worker, Update] (newClient ''host'' ''path'' 100)"
  have n: "hasNewFrame ?s"
    and len: "sint (1228799 :: cint) < int (length (data (currentFrame ?s)))"
    by (simp_all add: drained_client generateFrame_length)
  have big: "int (length (data (currentFrame ?s))) \<le> sint (1228800 :: cint)"
    by (simp add: drained_client generateFrame_length)
  note small = getFrameData_small_buffer [OF refl n len, of "[7, 7]"]
  from small have short: "getFrameData ?s [7, 7] 1228799 = (False, [7, 7], ?s)"
    by (rule conjunct1)
  from small big have "getFrameData (snd (snd (getFrameData ?s [7, 7] 1228799))) [] 1228800
      = (True, data (currentFrame ?s) @ drop (length (data (currentFrame ?s))) [],
         ?s\<lparr>hasNewFrame := False\<rparr>)"
    by blast
  then have retry: "fst (getFrameData (snd (snd (getFrameData ?s [7, 7] 1228799))) [] 1228800)"
    by simp
  show ?thesis
    unfolding Let_def using n len short retry by (intro conjI)
qed

text \<open>
  C6. Every frame the worker generates is 640 by 480 with 1228800 bytes. In every state
  a session can reach this holds of each queued frame and of an unread current frame,
  and the current frame always has \<open>width * height * 4\<close> bytes. When
  \<^verbatim>\<open>getFrameInfo\<close> succeeds it reports 640 and 480, and a \<^verbatim>\<open>getFrameData\<close>
  that follows with room for \<open>width * height * 4\<close> bytes copies exactly that many: the
  bytes of the current frame.
\<close>

theorem frames_consistent:
  assumes "s = run evs (newClient url path latency)"
  shows "width (generateFrame fc) = 640 \<and> height (generateFrame fc) = 480
       \<and> length (data (generateFrame fc)) = 1228800
       \<and> (\<forall>f \<in> set (frameQueue s).
            width f = 640 \<and> height f = 480 \<and> length (data f) = 1228800)
       \<and> int (length (data (currentFrame s)))
           = sint (width (currentFrame s)) * sint (height (currentFrame s)) * 4
       \<and> (hasNewFrame s \<longrightarrow>
            width (currentFrame s) = 640 \<and> height (currentFrame s) = 480
            \<and> length (data (currentFrame s)) = 1228800)
       \<and> (\<forall>w h w' h'. getFrameInfo s w h = (True, w', h') \<longrightarrow>
            w' = 640 \<and> h' = 480
            \<and> int (length (data (currentFrame s))) = sint w' * sint h' * 4
            \<and> (\<forall>buffer bufferSize. sint w' * sint h' * 4 \<le> sint bufferSize \<longrightarrow>
                 getFrameData s buffer bufferSize
                   = (True, data (currentFrame s) @ drop (nat (sint w' * sint h' * 4)) buffer,
                      s\<lparr>hasNewFrame := False\<rparr>)))"
proof -
  have inv: "framesInv s" using assms by (simp add: framesInv_reachable)
  have queue: "\<forall>f \<in> set (frameQueue s).
      width f = 640 \<and> height f = 480 \<and> length (data f) = 1228800"
    using inv by (auto simp: framesInv_def list_all_iff frameOk_def)
  have cur: "int (length (data (currentFrame s)))
      = sint (width (currentFrame s)) * sint (height (currentFrame s)) * 4"
    using inv by (auto simp: framesInv_def frameOk_def emptyFrame_def)
  have unread: "frameOk (currentFrame s)" if "hasNewFrame s"
    using inv that by (auto simp: framesInv_def)
  have info: "w' = 640 \<and> h' = 480
      \<and> int (length (data (currentFrame s))) = sint w' * sint h' * 4
      \<and> (\<forall>buffer bufferSize. sint w' * sint h' * 4 \<le> sint bufferSize \<longrightarrow>
           getFrameData s buffer bufferSize
             = (True, data (currentFrame s) @ drop (nat (sint w' * sint h' * 4)) buffer,
                s\<lparr>hasNewFrame := False\<rparr>))"
    if "getFrameInfo s w h = (True, w', h')" for w h w' h'
  proof -
    from that have n: "hasNewFrame s"
      and w': "w' = width (currentFrame s)" and h': "h' = height (currentFrame s)"
      by (auto simp: getFrameInfo_def split: if_splits)
    have ok: "frameOk (currentFrame s)" using n by (rule unread)
    then have dims: "w' = 640" "h' = 480"
      by (simp_all add: w' h' frameOk_def)
    show ?thesis
      using ok n by (simp add: dims frameOk_def getFrameData_enough)
  qed
  show ?thesis
    using queue cur unread info
    by (simp add: generateFrame_width generateFrame_height generateFrame_length frameOk_def)
qed

theorem frames_consistent_witness:
  "(let s = run [Worker, Worker, Worker, Worker, Update] (newClient ''host'' ''path'' 100)
    in frameQueue s = [generateFrame 1]
     \<and> length (data (generateFrame 1)) = 1228800
     \<and> hasNewFrame s
     \<and> getFrameInfo s 0 0 = (True, 640, 480)
     \<and> length (data (currentFrame s)) = 1228800)"
proof -
  let ?s = "run [Worker, Worker, Worker, Worker, Update] (newClient ''host'' ''path'' 100)"
  have q: "frameQueue ?s = [generateFrame 1]" and n: "hasNewFrame ?s"
    and c: "currentFrame ?s = generateFrame 0"
    by (simp_all add: run_def workerStep_def newClient_def pushFrame_def update_def)
  note all = frames_consistent [of _ "[Worker, Worker, Worker, Worker, Update]"
      "''host''" "''path''" 100 1, OF refl]
  from all have gen: "length (data (generateFrame 1)) = 1228800"
    by blast
  from all n have cur: "width (currentFrame ?s) = 640 \<and> height (currentFrame ?s) = 480
      \<and> length (data (currentFrame ?s)) = 1228800"
    by blast
  then have info: "getFrameInfo ?s 0 0 = (True, 640, 480)"
    using n by (simp add: getFrameInfo_def)
  show ?thesis
    unfolding Let_def using q gen n info cur by (intro conjI) simp_all
qed

section \<open>The bounded queue\<close>

lemma pushFrame_bounded:
  "length (frameQueue s) \<le> 5 \<Longrightarrow> length (frameQueue (pushFrame frame s)) \<le> 5"
  by (simp add: pushFrame_def)

lemma workerStep_bounded:
  "length (frameQueue s) \<le> 5 \<Longrightarrow> length (frameQueue (workerStep s)) \<le> 5"
  by (simp add: workerStep_def pushFrame_def split: worker_pc.splits)

lemma step_bounded:
  "length (frameQueue s) \<le> 5 \<Longrightarrow> length (frameQueue (step e s)) \<le> 5"
proof (cases e)
  case Update
  assume "length (frameQueue s) \<le> 5"
  then show ?thesis
    by (cases "frameQueue s") (simp_all add: Update update_def)
qed (simp_all add: workerStep_bounded stopClient_def getFrameData_def Let_def)

lemma run_bounded:
  "length (frameQueue s) \<le> 5 \<Longrightarrow> length (frameQueue (run evs s)) \<le> 5"
  by (rule run_invariant [where P = "\<lambda>s. length (frameQueue s) \<le> 5"])
     (simp_all add: step_bounded)

text \<open>
  C2. From a new client, and from any state with at most five queued frames, every
  interleaving of worker steps and foreground calls leaves at most five frames in the
  queue. With five frames queued the push is a no-op: the new frame is dropped, the
  queue, the current frame and the flag are as before, and a running worker only counts
  the frame. The step is a total function, so it returns.
\<close>

theorem frameQueue_bounded:
  "length (frameQueue (run evs (newClient url path latency))) \<le> 5
   \<and> (length (frameQueue s) \<le> 5 \<longrightarrow> length (frameQueue (run evs s)) \<le> 5)
   \<and> (length (frameQueue s) = 5 \<longrightarrow>
        pushFrame frame s = s
        \<and> frameQueue (workerStep s) = frameQueue s
        \<and> currentFrame (workerStep s) = currentFrame s
        \<and> hasNewFrame (workerStep s) = hasNewFrame s
        \<and> (workerPc s = FrameLoop \<and> running s \<longrightarrow>
             workerStep s = s\<lparr>frameCount := frameCount s + 1\<rparr>))"
proof -
  have "length (frameQueue (newClient url path latency)) \<le> 5"
    by (simp add: newClient_def)
  then have reach: "length (frameQueue (run evs (newClient url path latency))) \<le> 5"
    by (rule run_bounded)
  have full: "pushFrame frame s = s
        \<and> frameQueue (workerStep s) = frameQueue s
        \<and> currentFrame (workerStep s) = currentFrame s
        \<and> hasNewFrame (workerStep s) = hasNewFrame s
        \<and> (workerPc s = FrameLoop \<and> running s \<longrightarrow>
             workerStep s = s\<lparr>frameCount := frameCount s + 1\<rparr>)"
    if "length (frameQueue s) = 5"
    using that by (simp add: pushFrame_def workerStep_def split: worker_pc.splits)
  show ?thesis
    using reach full by (simp add: run_bounded)
qed

theorem frameQueue_bounded_witness:
  "(let s = run (replicate 7 Worker) (newClient ''host'' ''path'' 100)
    in length (frameQueue s) = 5
     \<and> frameQueue (workerStep s) = frameQueue s
     \<and> length (frameQueue (run [Worker, Worker, Update, Worker, Worker] s)) \<le> 5)"
proof -
  let ?s = "run (replicate 7 Worker) (newClient ''host'' ''path'' 100)"
  have q: "frameQueue ?s
     = [generateFrame 0, generateFrame 1, generateFrame 2, generateFrame 3, generateFrame 4]"
    by (simp add: numeral_eq_Suc run_def workerStep_def newClient_def pushFrame_def)
  then have five: "length (frameQueue ?s) = 5" by simp
  note all = frameQueue_bounded [of "[Worker, Worker, Update, Worker, Worker]"
      "''host''" "''path''" 100 ?s "generateFrame 5"]
  from all five have a: "frameQueue (workerStep ?s) = frameQueue ?s" by blast
  from all five have b: "length (frameQueue (run [Worker, Worker, Update, Worker, Worker] ?s)) \<le> 5"
    by simp
  show ?thesis
    unfolding Let_def using five a b by (intro conjI)
qed

section \<open>The connection status\<close>

lemma statusInv_newClient: "statusInv (newClient url path latency)"
  by (simp add: statusInv_def newClient_def)

lemma statusInv_step: "statusInv s \<Longrightarrow> statusInv (step e s)"
  by (cases e; cases "workerPc s"; cases "frameQueue s")
     (simp_all add: statusInv_def workerStep_def pushFrame_def stopClient_def update_def
        getFrameData_def Let_def)

lemma statusInv_run: "statusInv s \<Longrightarrow> statusInv (run evs s)"
  by (rule run_invariant) (simp_all add: statusInv_step)

lemma statusInv_values: "statusInv s \<Longrightarrow> connectionStatus s \<in> {0, 1, 2}"
  by (cases "workerPc s") (simp_all add: statusInv_def)

lemma status_step:
  assumes "statusInv s"
  shows "connectionStatus (step e s) = connectionStatus s
       \<or> connectionStatus s \<noteq> 2 \<and> connectionStatus (step e s) = connectionStatus s + 1"
  using assms
  by (cases e; cases "workerPc s"; cases "frameQueue s")
     (simp_all add: statusInv_def workerStep_def pushFrame_def stopClient_def update_def
        getFrameData_def Let_def)

lemma status_step_le:
  assumes "statusInv s"
  shows "sint (connectionStatus s) \<le> sint (connectionStatus (step e s))"
proof -
  have "connectionStatus s \<in> {0, 1, 2}" using assms by (rule statusInv_values)
  with status_step [OF assms, of e] show ?thesis by auto
qed

lemma status_run_le:
  "statusInv s \<Longrightarrow> sint (connectionStatus s) \<le> sint (connectionStatus (run evs s))"
proof (induction evs arbitrary: s)
  case Nil
  then show ?case by (simp add: run_Nil)
next
  case (Cons e evs)
  have "sint (connectionStatus s) \<le> sint (connectionStatus (step e s))"
    using Cons.prems by (rule status_step_le)
  also have "\<dots> \<le> sint (connectionStatus (run evs (step e s)))"
    using Cons.prems by (intro Cons.IH statusInv_step)
  finally show ?case by (simp add: run_Cons)
qed

text \<open>
  C8. The status of a new client is 0. In every reachable state it is 0, 1 or 2; it never
  decreases along any continuation of the run; once 2 it stays 2; and a single step
  either leaves it alone or adds one to a status below 2.
\<close>

theorem connectionStatus_monotone:
  assumes "s = run pre (newClient url path latency)" and "s' = run post s"
  shows "getConnectionStatus (newClient url path latency) = 0
       \<and> getConnectionStatus s \<in> {0, 1, 2}
       \<and> sint (getConnectionStatus s) \<le> sint (getConnectionStatus s')
       \<and> (getConnectionStatus s = 2 \<longrightarrow> getConnectionStatus s' = 2)
       \<and> (getConnectionStatus (step e s) = getConnectionStatus s
          \<or> getConnectionStatus s \<noteq> 2
            \<and> getConnectionStatus (step e s) = getConnectionStatus s + 1)"
proof -
  have invA: "statusInv s"
    using assms(1) by (simp add: statusInv_run statusInv_newClient)
  then have invB: "statusInv s'"
    using assms(2) by (simp add: statusInv_run)
  have le: "sint (connectionStatus s) \<le> sint (connectionStatus s')"
    using invA assms(2) by (simp add: status_run_le)
  have va: "connectionStatus s \<in> {0, 1, 2}" using invA by (rule statusInv_values)
  have vb: "connectionStatus s' \<in> {0, 1, 2}" using invB by (rule statusInv_values)
  have stay: "connectionStatus s' = 2" if "connectionStatus s = 2"
    using le vb that by auto
  show ?thesis
    using le va stay status_step [OF invA, of e]
    by (simp add: getConnectionStatus_def newClient_def)
qed

theorem connectionStatus_monotone_witness:
  "(let s0 = newClient ''host'' ''path'' 100;
        s1 = run [GetConnectionStatus, Worker] s0;
        s2 = run [Update, Worker, Worker, Stop, Worker] s1
    in getConnectionStatus s0 = 0 \<and> getConnectionStatus s1 = 1 \<and> getConnectionStatus s2 = 2
     \<and> sint (getConnectionStatus s1) \<le> sint (getConnectionStatus s2))"
proof -
  let ?s0 = "newClient ''host'' ''path'' 100"
  let ?s1 = "run [GetConnectionStatus, Worker] ?s0"
  let ?s2 = "run [Update, Worker, Worker, Stop, Worker] ?s1"
  have a: "getConnectionStatus ?s0 = 0" and b: "getConnectionStatus ?s1 = 1"
    and c: "getConnectionStatus ?s2 = 2"
    by (simp_all add: run_def workerStep_def newClient_def pushFrame_def update_def
        stopClient_def getConnectionStatus_def)
  from connectionStatus_monotone [where s = ?s1 and s' = ?s2
      and pre = "[GetConnectionStatus, Worker]" and url = "''host''" and path = "''path''"
      and latency = 100 and post = "[Update, Worker, Worker, Stop, Worker]" and e = Worker,
      OF refl refl]
  have d: "sint (getConnectionStatus ?s1) \<le> sint (getConnectionStatus ?s2)"
    by blast
  show ?thesis
    unfolding Let_def using a b c d by (intro conjI)
qed

section \<open>Timestamps\<close>

text \<open>
  Up to \<^verbatim>\<open>frameCount = 128846\<close> the product \<^verbatim>\<open>frameCount * 16667\<close> fits
  in an \<^verbatim>\<open>int\<close>, the timestamp is that product and grows with every frame.
\<close>

lemma generateFrame_timestamp_exact:
  assumes "0 \<le> sint fc" and "sint fc \<le> 128846"
  shows "sint (timestamp (generateFrame fc)) = sint fc * 16667"
proof -
  have lo: "- (2 ^ 31) \<le> sint fc * 16667" using assms(1) by simp
  have hi: "sint fc * 16667 < 2 ^ 31" using assms(2) by simp
  have "sint (fc * 16667) = signed_take_bit 31 (sint fc * sint (16667 :: cint))"
    by (simp add: sint_word_ariths)
  also have "\<dots> = sint fc * 16667"
    using lo hi by (simp add: signed_take_bit_int_eq_self)
  finally have "sint (fc * 16667) = sint fc * 16667" .
  moreover have "sint (scast (fc * 16667) :: int64_t) = sint (fc * 16667)"
    by (rule sint_up_scast) (simp add: is_up)
  ultimately show ?thesis
    by (simp add: generateFrame_timestamp)
qed

lemma generateFrame_timestamp_increasing:
  assumes "0 \<le> sint fc" and "sint fc < 128846"
  shows "sint (timestamp (generateFrame fc)) < sint (timestamp (generateFrame (fc + 1)))"
proof -
  have "sint (fc + 1) = signed_take_bit 31 (sint fc + sint (1 :: cint))"
    by (simp add: sint_word_ariths)
  also have "\<dots> = sint fc + 1"
    using assms by (simp add: signed_take_bit_int_eq_self)
  finally have next_fc: "sint (fc + 1) = sint fc + 1" .
  show ?thesis
    using assms by (simp add: generateFrame_timestamp_exact next_fc)
qed

lemma turn_and_drain:
  assumes "workerPc s = FrameLoop" and "running s" and "frameQueue s = []"
  shows "workerPc (run [Worker, Update] s) = FrameLoop
       \<and> running (run [Worker, Update] s)
       \<and> frameQueue (run [Worker, Update] s) = []
       \<and> frameCount (run [Worker, Update] s) = frameCount s + 1"
  using assms by (simp add: run_def workerStep_def pushFrame_def update_def)

lemma turns_and_drains:
  assumes "workerPc s = FrameLoop" and "running s" and "frameQueue s = []"
  shows "workerPc (run (concat (replicate n [Worker, Update])) s) = FrameLoop
       \<and> running (run (concat (replicate n [Worker, Update])) s)
       \<and> frameQueue (run (concat (replicate n [Worker, Update])) s) = []
       \<and> frameCount (run (concat (replicate n [Worker, Update])) s) = frameCount s + of_nat n"
  using assms
proof (induction n arbitrary: s)
  case 0
  then show ?case by (simp add: run_Nil)
next
  case (Suc n)
  let ?t = "run [Worker, Update] s"
  have t: "workerPc ?t = FrameLoop \<and> running ?t \<and> frameQueue ?t = []
      \<and> frameCount ?t = frameCount s + 1"
    using Suc.prems by (rule turn_and_drain)
  have split: "run (concat (replicate (Suc n) [Worker, Update])) s
      = run (concat (replicate n [Worker, Update])) ?t"
    by (simp add: run_def)
  show ?case
    unfolding split using Suc.IH [of ?t] t by (simp add: add.assoc)
qed

lemma two_turns:
  assumes "workerPc s = FrameLoop" and "running s" and "frameQueue s = []"
  shows "frameQueue (run [Worker, Worker] s)
     = [generateFrame (frameCount s), generateFrame (frameCount s + 1)]"
  using assms by (simp add: run_def workerStep_def pushFrame_def)

lemma timestamp_128846: "sint (timestamp (generateFrame 128846)) = 2147476282"
  by (simp add: generateFrame_timestamp)

lemma timestamp_128847: "sint (timestamp (generateFrame 128847)) = - 2147474347"
  by (simp add: generateFrame_timestamp)

text \<open>
  C5, at the frame where it fails. A client connects, and the consumer drains each of the
  first 128846 frames as it arrives; the worker then generates two more frames, for
  \<^verbatim>\<open>frameCount\<close> 128846 and 128847, and both are queued. The second product,
  2147492949, is beyond the largest \<^verbatim>\<open>int\<close> and wraps: the queue holds the
  timestamps 2147476282 and -2147474347 in this order, and two successive
  \<^verbatim>\<open>update\<close> calls drain first the larger and then the smaller one.
\<close>

theorem timestamp_wraps:
  "(let s = run (Worker # Worker # concat (replicate 128846 [Worker, Update])
                   @ [Worker, Worker]) (newClient ''host'' ''path'' 100);
        s1 = snd (update s);
        s2 = snd (update s1)
    in map (\<lambda>f. sint (timestamp f)) (frameQueue s) = [2147476282, - 2147474347]
     \<and> hasNewFrame s1 \<and> sint (timestamp (currentFrame s1)) = 2147476282
     \<and> hasNewFrame s2 \<and> sint (timestamp (currentFrame s2)) = - 2147474347)"
proof -
  let ?c = "run [Worker, Worker] (newClient ''host'' ''path'' 100)"
  let ?t = "run (concat (replicate 128846 [Worker, Update])) ?c"
  let ?s = "run [Worker, Worker] ?t"
  have c: "workerPc ?c = FrameLoop" "running ?c" "frameQueue ?c = []" "frameCount ?c = 0"
    by (simp_all add: run_def workerStep_def newClient_def)
  have t: "workerPc ?t = FrameLoop \<and> running ?t \<and> frameQueue ?t = []
      \<and> frameCount ?t = 128846"
    using turns_and_drains [OF c(1,2,3), of 128846] c(4) by simp
  then have q: "frameQueue ?s = [generateFrame 128846, generateFrame 128847]"
    using two_turns [of ?t] by simp
  have s: "run (Worker # Worker # concat (replicate 128846 [Worker, Update])
                   @ [Worker, Worker]) (newClient ''host'' ''path'' 100) = ?s"
    by (simp add: run_def)
  show ?thesis
    unfolding s Let_def by (simp add: q update_def timestamp_128846 timestamp_128847)
qed

section \<open>Locks held by the worker and by MoqGetFrameData\<close>

text \<open>
  C9, as the code has it. In \<^verbatim>\<open>workerFunction\<close> the two sleeps and the
  bookkeeping of \<^verbatim>\<open>frameCount\<close> run with no lock held; the test of
  \<^verbatim>\<open>running_\<close>, the generation of the frame and the push run in one block under
  the client's mutex. In \<^verbatim>\<open>MoqGetFrameData\<close> the registry mutex is held from the
  lookup to the return, so the pixel copy runs under both mutexes.
\<close>

theorem locks_held:
  "locksHeld [] workerFunction_body =
     [(SetConnectionStatus 1, [Mutex]),
      (SleepMs 500, []),
      (SetConnectionStatus 2, [Mutex]),
      (InitFrameCount, []),
      (TestRunning, [Mutex]),
      (GenerateTestFrame, [Mutex]),
      (PushToQueue, [Mutex]),
      (IncrementFrameCount, []),
      (SleepMs 16, [])]
   \<and> locksHeld [] MoqGetFrameData_body =
     [(FindClient, [G_clientsMutex]),
      (TestHasNewFrame, [Mutex, G_clientsMutex]),
      (CopyPixels, [Mutex, G_clientsMutex]),
      (ClearHasNewFrame, [Mutex, G_clientsMutex])]"
  by (simp add: workerFunction_body_def MoqGetFrameData_body_def getFrameData_body_def)

text \<open>
  C9, as stated, fails: the frame is generated while the client's mutex is held, and the
  pixels are copied while the registry mutex is held.
\<close>

theorem locks_counterexample:
  "Mutex \<in> set (locksDuring GenerateTestFrame workerFunction_body)
   \<and> G_clientsMutex \<in> set (locksDuring CopyPixels MoqGetFrameData_body)"
  by (simp add: locksDuring_def workerFunction_body_def MoqGetFrameData_body_def
      getFrameData_body_def)

end
